theory Spec2Isabelle
  imports Complex_Main "HOL-Library.Sublist"
begin

section \<open>Data model (types.ts)\<close>

text \<open>
  A JavaScript \<open>number\<close> that holds a time in seconds is modelled as a \<open>real\<close>: the
  arithmetic of the editor is read exactly, without the rounding of IEEE doubles and
  without NaN or infinities. \<open>trackIndex\<close> only ever receives whole numbers (0 at
  creation, a clamped sum with \<open>Math.round\<close> afterwards) and is an \<open>int\<close>.
  Identifiers and URLs are strings; the optional \<open>thumbnail\<close> is an option.
\<close>

datatype MediaType = video | audio | image_t

record Clip =
  clip_id :: string
  fileUrl :: string
  type_c :: MediaType
  name :: string
  duration :: real
  startOffset :: real
  trackIndex :: int
  trimStart :: real
  trimEnd :: real
  volume :: real
  isMuted :: bool
  thumbnail :: "string option"

text \<open>
  The state hooks of \<open>App\<close>: \<open>clips\<close>, \<open>currentTime\<close>, \<open>isPlaying\<close>,
  \<open>selectedClipId\<close> (\<open>null\<close> is \<open>None\<close>).
\<close>

record AppState =
  clips :: "Clip list"
  currentTime :: real
  isPlaying :: bool
  selectedClipId :: "string option"

text \<open>
  \<open>Partial<Clip>\<close>: every field may be absent. \<open>{...c, ...updates}\<close> overwrites
  exactly the fields that are present.
\<close>

record ClipUpdates =
  u_id :: "string option"
  u_fileUrl :: "string option"
  u_type :: "MediaType option"
  u_name :: "string option"
  u_duration :: "real option"
  u_startOffset :: "real option"
  u_trackIndex :: "int option"
  u_trimStart :: "real option"
  u_trimEnd :: "real option"
  u_volume :: "real option"
  u_isMuted :: "bool option"
  u_thumbnail :: "string option option"

definition noUpdates :: ClipUpdates where
  "noUpdates = \<lparr> u_id = None, u_fileUrl = None, u_type = None, u_name = None,
     u_duration = None, u_startOffset = None, u_trackIndex = None, u_trimStart = None,
     u_trimEnd = None, u_volume = None, u_isMuted = None, u_thumbnail = None \<rparr>"

definition orElse :: "'a option \<Rightarrow> 'a \<Rightarrow> 'a" where
  "orElse u v = (case u of None \<Rightarrow> v | Some w \<Rightarrow> w)"

definition spread :: "Clip \<Rightarrow> ClipUpdates \<Rightarrow> Clip" where
  "spread c u = \<lparr> clip_id = orElse (u_id u) (clip_id c),
     fileUrl = orElse (u_fileUrl u) (fileUrl c),
     type_c = orElse (u_type u) (type_c c),
     name = orElse (u_name u) (name c),
     duration = orElse (u_duration u) (duration c),
     startOffset = orElse (u_startOffset u) (startOffset c),
     trackIndex = orElse (u_trackIndex u) (trackIndex c),
     trimStart = orElse (u_trimStart u) (trimStart c),
     trimEnd = orElse (u_trimEnd u) (trimEnd c),
     volume = orElse (u_volume u) (volume c),
     isMuted = orElse (u_isMuted u) (isMuted c),
     thumbnail = orElse (u_thumbnail u) (thumbnail c) \<rparr>"

section \<open>App: the clip store and its click actions\<close>

text \<open>\<open>clips.find(c => c.id === selectedClipId)\<close>: the first clip with the selected id.\<close>

definition selectedClip :: "AppState \<Rightarrow> Clip option" where
  "selectedClip st = find (\<lambda>c. Some (clip_id c) = selectedClipId st) (clips st)"

definition handleUpdateClip :: "string \<Rightarrow> ClipUpdates \<Rightarrow> Clip list \<Rightarrow> Clip list" where
  "handleUpdateClip i updates prev = map (\<lambda>c. if clip_id c = i then spread c updates else c) prev"

text \<open>\<open>if (selectedClipId)\<close>: \<open>null\<close> and the empty string are both falsy.\<close>

definition handleDeleteClip :: "AppState \<Rightarrow> AppState" where
  "handleDeleteClip st =
     (case selectedClipId st of
        None \<Rightarrow> st
      | Some i \<Rightarrow>
          if i = [] then st
          else st\<lparr> clips := filter (\<lambda>c. clip_id c \<noteq> i) (clips st),
                   selectedClipId := None \<rparr>)"

text \<open>
  \<open>handleSplit\<close>. The argument \<open>uuid\<close> is the value \<open>crypto.randomUUID()\<close> returns.
\<close>

definition handleSplit :: "string \<Rightarrow> AppState \<Rightarrow> AppState" where
  "handleSplit uuid st =
     (case selectedClip st of
        None \<Rightarrow> st
      | Some sel \<Rightarrow>
          (let clipDuration = trimEnd sel - trimStart sel;
               clipEndTime = startOffset sel + clipDuration
           in if currentTime st > startOffset sel \<and> currentTime st < clipEndTime then
                (let splitPointRelative = currentTime st - startOffset sel;
                     splitPointSource = trimStart sel + splitPointRelative;
                     firstHalf = sel\<lparr> trimEnd := splitPointSource \<rparr>;
                     secondHalf = sel\<lparr> clip_id := uuid, startOffset := currentTime st,
                                       trimStart := splitPointSource,
                                       trackIndex := trackIndex sel \<rparr>
                 in st\<lparr> clips := map (\<lambda>c. if clip_id c = clip_id sel then firstHalf else c)
                                     (clips st) @ [secondHalf],
                         selectedClipId := Some (clip_id secondHalf) \<rparr>)
              else st))"

definition handleSeparateAudio :: "string \<Rightarrow> AppState \<Rightarrow> AppState" where
  "handleSeparateAudio uuid st =
     (case selectedClip st of
        None \<Rightarrow> st
      | Some sel \<Rightarrow>
          if type_c sel \<noteq> video then st
          else
            (let updatedVideo = sel\<lparr> isMuted := True \<rparr>;
                 audioClip = sel\<lparr> clip_id := uuid, type_c := audio,
                                  name := ''Audio from '' @ name sel,
                                  trackIndex := 0, isMuted := False \<rparr>
             in st\<lparr> clips := map (\<lambda>c. if clip_id c = clip_id sel then updatedVideo else c)
                                 (clips st) @ [audioClip] \<rparr>))"

definition adjustTrim :: "real \<Rightarrow> real \<Rightarrow> AppState \<Rightarrow> AppState" where
  "adjustTrim startDelta endDelta st =
     (case selectedClip st of
        None \<Rightarrow> st
      | Some sel \<Rightarrow>
          (let newTrimStart = max 0 (trimStart sel + startDelta);
               newTrimEnd = min (duration sel) (trimEnd sel + endDelta)
           in if newTrimStart < newTrimEnd then
                st\<lparr> clips := map (\<lambda>c. if clip_id c = clip_id sel
                                         then c\<lparr> trimStart := newTrimStart, trimEnd := newTrimEnd \<rparr>
                                         else c) (clips st) \<rparr>
              else st))"

text \<open>
  \<open>handleFileUpload\<close> runs in two steps. The change event creates the object URL and
  installs \<open>onloadedmetadata\<close>; that callback is a closure over the \<open>currentTime\<close> of
  the render in which the file was chosen. It runs later, when the browser has read the
  duration, on whatever the state is then: \<open>setClips\<close> is given a function of the
  previous list, \<open>setCurrentTime\<close> a value computed from the captured time.
\<close>

record File =
  file_name :: string
  file_type :: string

record PendingImport =
  p_url :: string
  p_file :: File
  p_currentTime :: real

definition handleFileUpload :: "File option \<Rightarrow> string \<Rightarrow> AppState \<Rightarrow> PendingImport option" where
  "handleFileUpload files0 url st =
     (case files0 of
        None \<Rightarrow> None
      | Some file \<Rightarrow> Some \<lparr> p_url = url, p_file = file, p_currentTime = currentTime st \<rparr>)"

definition onloadedmetadata :: "PendingImport \<Rightarrow> string \<Rightarrow> real \<Rightarrow> AppState \<Rightarrow> AppState" where
  "onloadedmetadata p uuid videoDuration st =
     (let ty = (if prefix ''audio'' (file_type (p_file p)) then audio else video);
          newClip = \<lparr> clip_id = uuid, fileUrl = p_url p, type_c = ty,
                      name = file_name (p_file p), duration = videoDuration,
                      startOffset = p_currentTime p, trackIndex = 0, trimStart = 0,
                      trimEnd = videoDuration, volume = 1, isMuted = False,
                      thumbnail = None \<rparr>
      in st\<lparr> clips := clips st @ [newClip],
              currentTime := p_currentTime p + videoDuration \<rparr>)"

section \<open>Player: the composition resolver\<close>

text \<open>
  \<open>activeVideoClips\<close> and \<open>activeAudioClips\<close> are the two \<open>filter\<close> calls of
  \<open>Player\<close>. \<open>Array.prototype.sort\<close> is stable, so sorting with the comparator
  \<open>(a, b) => b.trackIndex - a.trackIndex\<close> is a stable sort on the negated track index;
  element \<open>[0]\<close> of an empty array is \<open>undefined\<close>, here \<open>None\<close>.
\<close>

definition activeVideoClips :: "Clip list \<Rightarrow> real \<Rightarrow> Clip list" where
  "activeVideoClips cs t =
     filter (\<lambda>c. type_c c = video \<and> t \<ge> startOffset c \<and>
                 t < startOffset c + (trimEnd c - trimStart c)) cs"

definition topVideoClip :: "Clip list \<Rightarrow> real \<Rightarrow> Clip option" where
  "topVideoClip cs t =
     (case sort_key (\<lambda>c. - trackIndex c) (activeVideoClips cs t) of
        [] \<Rightarrow> None
      | c # _ \<Rightarrow> Some c)"



text \<open>
  The media elements are the renderer. Of an element the model keeps what the effects
  write: the \<open>src\<close> and the \<open>data-src\<close> attribute, \<open>currentTime\<close>, \<open>muted\<close> and
  \<open>volume\<close>. The calls of \<open>play\<close> and \<open>pause\<close> are left out: whether the browser
  honours them is not decided by this code.
\<close>

record MediaElement =
  el_src :: "string option"
  el_dataSrc :: "string option"
  el_currentTime :: real
  el_muted :: bool
  el_volume :: real







section \<open>Timeline: the drag session\<close>

definition PIXELS_PER_SECOND :: real where "PIXELS_PER_SECOND = 20"
definition TRACK_HEIGHT :: real where "TRACK_HEIGHT = 64"
definition TRACK_GAP :: real where "TRACK_GAP = 8"

datatype DragMode = move | resize_left | resize_right

record DragState =
  clipId :: string
  startX :: real
  startY :: real
  mode :: DragMode
  initialStartOffset :: real
  initialTrimStart :: real
  initialTrimEnd :: real
  initialTrackIndex :: int
  currentStartOffset :: real
  currentTrimStart :: real
  currentTrimEnd :: real
  currentTrackIndex :: int

record MouseEvent =
  clientX :: real
  clientY :: real

text \<open>
  The three pointer-down handlers of a clip item differ only in the mode they record.
\<close>

definition startDrag :: "DragMode \<Rightarrow> Clip \<Rightarrow> MouseEvent \<Rightarrow> DragState" where
  "startDrag m clip e =
     \<lparr> clipId = clip_id clip, startX = clientX e, startY = clientY e, mode = m,
       initialStartOffset = startOffset clip, initialTrimStart = trimStart clip,
       initialTrimEnd = trimEnd clip, initialTrackIndex = trackIndex clip,
       currentStartOffset = startOffset clip, currentTrimStart = trimStart clip,
       currentTrimEnd = trimEnd clip, currentTrackIndex = trackIndex clip \<rparr>"

definition startMove :: "Clip \<Rightarrow> MouseEvent \<Rightarrow> DragState" where
  "startMove = startDrag move"

definition startResizeLeft :: "Clip \<Rightarrow> MouseEvent \<Rightarrow> DragState" where
  "startResizeLeft = startDrag resize_left"

definition startResizeRight :: "Clip \<Rightarrow> MouseEvent \<Rightarrow> DragState" where
  "startResizeRight = startDrag resize_right"

text \<open>
  The drag effect looks the dragged clip up in the store and installs its two listeners
  only when it is found. \<open>Math.round\<close> rounds halves up, as \<open>round\<close> does.
\<close>

definition handleMouseMove :: "Clip list \<Rightarrow> DragState \<Rightarrow> MouseEvent \<Rightarrow> DragState" where
  "handleMouseMove cs prev e =
     (case find (\<lambda>c. clip_id c = clipId prev) cs of
        None \<Rightarrow> prev
      | Some activeClip \<Rightarrow>
          (let deltaPixelsX = clientX e - startX prev;
               deltaSeconds = deltaPixelsX / PIXELS_PER_SECOND;
               deltaPixelsY = clientY e - startY prev;
               tracksJump = round (deltaPixelsY / (TRACK_HEIGHT + TRACK_GAP))
           in case mode prev of
                move \<Rightarrow>
                  (let newOffset = max 0 (initialStartOffset prev + deltaSeconds);
                       newTrackIndex = initialTrackIndex prev + tracksJump
                   in prev\<lparr> currentStartOffset := newOffset,
                             currentTrackIndex := max 0 (min newTrackIndex 2) \<rparr>)
              | resize_left \<Rightarrow>
                  (let minDuration = 1 / 2;
                       newTrimStart = max 0 (min (initialTrimStart prev + deltaSeconds)
                                                 (initialTrimEnd prev - minDuration));
                       actualDelta = newTrimStart - initialTrimStart prev
                   in prev\<lparr> currentTrimStart := newTrimStart,
                             currentStartOffset := initialStartOffset prev + actualDelta \<rparr>)
              | resize_right \<Rightarrow>
                  (let minDuration = 1 / 2;
                       newTrimEnd = max (initialTrimStart prev + minDuration)
                                        (min (initialTrimEnd prev + deltaSeconds)
                                             (duration activeClip))
                   in prev\<lparr> currentTrimEnd := newTrimEnd \<rparr>)))"

definition commitUpdates :: "DragState \<Rightarrow> ClipUpdates" where
  "commitUpdates ds =
     (case mode ds of
        move \<Rightarrow> noUpdates\<lparr> u_startOffset := Some (currentStartOffset ds),
                             u_trackIndex := Some (currentTrackIndex ds) \<rparr>
      | resize_left \<Rightarrow> noUpdates\<lparr> u_trimStart := Some (currentTrimStart ds),
                                    u_startOffset := Some (currentStartOffset ds) \<rparr>
      | resize_right \<Rightarrow> noUpdates\<lparr> u_trimEnd := Some (currentTrimEnd ds) \<rparr>)"

definition handleMouseUp :: "DragState \<Rightarrow> Clip list \<Rightarrow> Clip list" where
  "handleMouseUp ds cs =
     (case find (\<lambda>c. clip_id c = clipId ds) cs of
        None \<Rightarrow> cs
      | Some activeClip \<Rightarrow> handleUpdateClip (clipId ds) (commitUpdates ds) cs)"

text \<open>
  A whole gesture on a clip of the store: pointer down on the clip, any number of pointer
  moves, pointer up. The store does not change while the pointer is down.
\<close>

definition dragLive :: "DragMode \<Rightarrow> Clip \<Rightarrow> MouseEvent \<Rightarrow> MouseEvent list \<Rightarrow> Clip list \<Rightarrow> DragState" where
  "dragLive m clip down moves cs = foldl (handleMouseMove cs) (startDrag m clip down) moves"

definition dragGesture :: "DragMode \<Rightarrow> Clip \<Rightarrow> MouseEvent \<Rightarrow> MouseEvent list \<Rightarrow> Clip list \<Rightarrow> Clip list" where
  "dragGesture m clip down moves cs = handleMouseUp (dragLive m clip down moves cs) cs"

section \<open>Example inputs\<close>

text \<open>
  The two overlapping video clips of the layering scenario, a muted audio clip, a clip
  whose trim range lies below zero, and the states and pointer events used below.
\<close>

definition clipA :: Clip where
  "clipA = \<lparr> clip_id = ''a'', fileUrl = ''blob:a'', type_c = video, name = ''A'',
             duration = 10, startOffset = 0, trackIndex = 0, trimStart = 0, trimEnd = 10,
             volume = 1, isMuted = False, thumbnail = None \<rparr>"

definition clipB :: Clip where
  "clipB = \<lparr> clip_id = ''b'', fileUrl = ''blob:b'', type_c = video, name = ''B'',
             duration = 10, startOffset = 5, trackIndex = 1, trimStart = 0, trimEnd = 10,
             volume = 1, isMuted = False, thumbnail = None \<rparr>"

definition clipM :: Clip where
  "clipM = \<lparr> clip_id = ''m'', fileUrl = ''blob:m'', type_c = audio, name = ''M'',
             duration = 10, startOffset = 0, trackIndex = 0, trimStart = 0, trimEnd = 10,
             volume = 1 / 2, isMuted = True, thumbnail = None \<rparr>"

definition clipNeg :: Clip where
  "clipNeg = \<lparr> clip_id = ''z'', fileUrl = ''blob:z'', type_c = video, name = ''Z'',
               duration = 10, startOffset = 0, trackIndex = 0, trimStart = - 2,
               trimEnd = - 1, volume = 1, isMuted = False, thumbnail = None \<rparr>"

definition stSel :: AppState where
  "stSel = \<lparr> clips = [clipA, clipB], currentTime = 4, isPlaying = False,
             selectedClipId = Some ''a'' \<rparr>"

definition stLater :: AppState where
  "stLater = \<lparr> clips = [clipA, clipB], currentTime = 6, isPlaying = True,
               selectedClipId = Some ''a'' \<rparr>"

definition evDown :: MouseEvent where
  "evDown = \<lparr> clientX = 100, clientY = 50 \<rparr>"

definition evFar :: MouseEvent where
  "evFar = \<lparr> clientX = 500, clientY = 130 \<rparr>"

definition evBack :: MouseEvent where
  "evBack = \<lparr> clientX = - 300, clientY = 50 \<rparr>"

definition fileV :: File where
  "fileV = \<lparr> file_name = ''v.mp4'', file_type = ''video/mp4'' \<rparr>"

definition blankElement :: MediaElement where
  "blankElement = \<lparr> el_src = None, el_dataSrc = None, el_currentTime = 0,
                    el_muted = False, el_volume = 1 \<rparr>"

definition dsMove :: DragState where
  "dsMove = \<lparr> clipId = ''a'', startX = 100, startY = 50, mode = move,
              initialStartOffset = 0, initialTrimStart = 0, initialTrimEnd = 10,
              initialTrackIndex = 0, currentStartOffset = 3, currentTrimStart = 7,
              currentTrimEnd = 8, currentTrackIndex = 1 \<rparr>"

definition pendingV :: PendingImport where
  "pendingV = \<lparr> p_url = ''blob:v'', p_file = fileV, p_currentTime = 4 \<rparr>"

section \<open>Unfolding the example inputs\<close>

lemmas ex_defs = clipA_def clipB_def clipM_def clipNeg_def stSel_def stLater_def evDown_def
  evFar_def evBack_def fileV_def blankElement_def dsMove_def pendingV_def

section \<open>The drag session keeps its snapshot\<close>

lemma handleMouseMove_frame:
  "clipId (handleMouseMove cs prev e) = clipId prev \<and>
   mode (handleMouseMove cs prev e) = mode prev \<and>
   startX (handleMouseMove cs prev e) = startX prev \<and>
   startY (handleMouseMove cs prev e) = startY prev \<and>
   initialStartOffset (handleMouseMove cs prev e) = initialStartOffset prev \<and>
   initialTrimStart (handleMouseMove cs prev e) = initialTrimStart prev \<and>
   initialTrimEnd (handleMouseMove cs prev e) = initialTrimEnd prev \<and>
   initialTrackIndex (handleMouseMove cs prev e) = initialTrackIndex prev"
  by (simp add: handleMouseMove_def Let_def split: option.splits DragMode.splits)

lemma foldl_handleMouseMove_frame:
  "clipId (foldl (handleMouseMove cs) ds moves) = clipId ds \<and>
   mode (foldl (handleMouseMove cs) ds moves) = mode ds \<and>
   startX (foldl (handleMouseMove cs) ds moves) = startX ds \<and>
   startY (foldl (handleMouseMove cs) ds moves) = startY ds \<and>
   initialStartOffset (foldl (handleMouseMove cs) ds moves) = initialStartOffset ds \<and>
   initialTrimStart (foldl (handleMouseMove cs) ds moves) = initialTrimStart ds \<and>
   initialTrimEnd (foldl (handleMouseMove cs) ds moves) = initialTrimEnd ds \<and>
   initialTrackIndex (foldl (handleMouseMove cs) ds moves) = initialTrackIndex ds"
proof (induction moves arbitrary: ds)
  case Nil
  show ?case by simp
next
  case (Cons e es)
  show ?case using Cons.IH [of "handleMouseMove cs ds e"] handleMouseMove_frame [of cs ds e]
    by simp
qed

text \<open>
  Every pointer move recomputes the live values from the snapshot, so a gesture is
  decided by its last move.
\<close>

lemma handleMouseMove_overwrites:
  "handleMouseMove cs (handleMouseMove cs ds e1) e2 = handleMouseMove cs ds e2"
  by (cases "mode ds") (simp_all add: handleMouseMove_def Let_def split: option.splits)

lemma foldl_handleMouseMove_last:
  "foldl (handleMouseMove cs) ds (moves @ [e]) = handleMouseMove cs ds e"
proof (induction moves arbitrary: ds)
  case Nil
  show ?case by simp
next
  case (Cons x xs)
  show ?case using Cons.IH [of "handleMouseMove cs ds x"]
    by (simp add: handleMouseMove_overwrites)
qed

lemma dragLive_cases:
  "dragLive m clip down moves cs =
     (if moves = [] then startDrag m clip down
      else handleMouseMove cs (startDrag m clip down) (last moves))"
proof (cases moves rule: rev_cases)
  case Nil
  then show ?thesis by (simp add: dragLive_def)
next
  case (snoc ys y)
  then show ?thesis by (simp add: dragLive_def foldl_handleMouseMove_last del: foldl_append)
qed

lemma dragLive_clipId: "clipId (dragLive m clip down moves cs) = clip_id clip"
  and dragLive_mode: "mode (dragLive m clip down moves cs) = m"
  using foldl_handleMouseMove_frame [of cs "startDrag m clip down" moves]
  by (simp_all add: dragLive_def startDrag_def)

section \<open>Resize-left anchors the right edge\<close>




section \<open>The commit writes the fields of its mode\<close>

lemma spread_commitUpdates:
  "spread c (commitUpdates ds) =
     (case mode ds of
        move \<Rightarrow> c\<lparr> startOffset := currentStartOffset ds, trackIndex := currentTrackIndex ds \<rparr>
      | resize_left \<Rightarrow> c\<lparr> startOffset := currentStartOffset ds, trimStart := currentTrimStart ds \<rparr>
      | resize_right \<Rightarrow> c\<lparr> trimEnd := currentTrimEnd ds \<rparr>)"
  by (cases "mode ds") (simp_all add: spread_def commitUpdates_def noUpdates_def orElse_def)

lemma find_None_map_id:
  "find (\<lambda>c. clip_id c = i) cs = None \<Longrightarrow> map (\<lambda>c. if clip_id c = i then g c else c) cs = cs"
  by (induction cs) (auto split: if_splits)

lemma handleMouseUp_eq:
  "handleMouseUp ds cs = map (\<lambda>c. if clip_id c = clipId ds then spread c (commitUpdates ds) else c) cs"
  by (simp add: handleMouseUp_def handleUpdateClip_def find_None_map_id split: option.splits)

text \<open>
  Claim C8. On pointer release the store keeps its length; a clip whose id is not the
  dragged one is unchanged; a clip with the dragged id is its old value with only the
  fields of the drag mode overwritten: start offset and track index for a move, start
  offset and trim start for resize-left, trim end for resize-right.
\<close>

theorem commit_writes_only_mode_fields:
  "length (handleMouseUp ds cs) = length cs \<and>
   (\<forall>i < length cs.
      (clip_id (cs ! i) \<noteq> clipId ds \<longrightarrow> handleMouseUp ds cs ! i = cs ! i) \<and>
      (clip_id (cs ! i) = clipId ds \<longrightarrow>
         (mode ds = move \<longrightarrow>
            handleMouseUp ds cs ! i
              = (cs ! i)\<lparr> startOffset := currentStartOffset ds,
                          trackIndex := currentTrackIndex ds \<rparr>) \<and>
         (mode ds = resize_left \<longrightarrow>
            handleMouseUp ds cs ! i
              = (cs ! i)\<lparr> startOffset := currentStartOffset ds,
                          trimStart := currentTrimStart ds \<rparr>) \<and>
         (mode ds = resize_right \<longrightarrow>
            handleMouseUp ds cs ! i = (cs ! i)\<lparr> trimEnd := currentTrimEnd ds \<rparr>)))"
  by (simp add: handleMouseUp_eq spread_commitUpdates)

text \<open>
  A move whose live snapshot carries trim values that differ from the clip's: only the
  start offset and the track index reach the store.
\<close>

theorem commit_writes_only_mode_fields_witness:
  "clip_id ([clipA, clipB] ! 0) = clipId dsMove \<and> mode dsMove = move \<and>
   handleMouseUp dsMove [clipA, clipB] ! 0 = clipA\<lparr> startOffset := 3, trackIndex := 1 \<rparr> \<and>
   clip_id ([clipA, clipB] ! 1) \<noteq> clipId dsMove \<and>
   handleMouseUp dsMove [clipA, clipB] ! 1 = clipB"
proof -
  have a: "clip_id ([clipA, clipB] ! 0) = clipId dsMove" "mode dsMove = move"
          "clip_id ([clipA, clipB] ! 1) \<noteq> clipId dsMove"
    by (simp_all add: ex_defs)
  note T = commit_writes_only_mode_fields [of dsMove "[clipA, clipB]", THEN conjunct2]
  have n0: "handleMouseUp dsMove [clipA, clipB] ! 0
              = clipA\<lparr> startOffset := 3, trackIndex := 1 \<rparr>"
    using T [THEN spec, of 0] a by (simp add: dsMove_def)
  have n1: "handleMouseUp dsMove [clipA, clipB] ! 1 = clipB"
    using T [THEN spec, of 1] a by simp
  show ?thesis using a n0 n1 by blast
qed

section \<open>Resizing within the source\<close>

lemma distinct_ids_same:
  assumes "distinct (map clip_id cs)" "c \<in> set cs" "d \<in> set cs" "clip_id c = clip_id d"
  shows "c = d"
  using assms by (meson distinct_map inj_onD)

lemma find_by_id:
  assumes "distinct (map clip_id cs)" "clip \<in> set cs"
  shows "find (\<lambda>c. clip_id c = clip_id clip) cs = Some clip"
proof -
  obtain x where x: "find (\<lambda>c. clip_id c = clip_id clip) cs = Some x"
    using assms(2) by (cases "find (\<lambda>c. clip_id c = clip_id clip) cs") (auto simp: find_None_iff)
  then have "x \<in> set cs \<and> clip_id x = clip_id clip"
    by (auto simp: find_Some_iff)
  then have "x = clip" using distinct_ids_same [OF assms(1) _ assms(2)] by blast
  then show ?thesis using x by simp
qed

lemma resize_left_live_bounds:
  assumes "0 \<le> trimStart clip" "trimStart clip + 1 / 2 \<le> trimEnd clip"
  shows "0 \<le> currentTrimStart (dragLive resize_left clip down moves cs)
       \<and> currentTrimStart (dragLive resize_left clip down moves cs)
           \<le> currentTrimEnd (dragLive resize_left clip down moves cs) - 1 / 2
       \<and> currentTrimEnd (dragLive resize_left clip down moves cs) = trimEnd clip"
  using assms
  by (simp add: dragLive_cases startDrag_def handleMouseMove_def Let_def split: option.splits)

lemma resize_right_live_bounds:
  assumes "trimStart clip + 1 / 2 \<le> trimEnd clip" "trimEnd clip \<le> duration clip"
      and "find (\<lambda>c. clip_id c = clip_id clip) cs = Some clip"
  shows "currentTrimStart (dragLive resize_right clip down moves cs) = trimStart clip
       \<and> currentTrimStart (dragLive resize_right clip down moves cs) + 1 / 2
           \<le> currentTrimEnd (dragLive resize_right clip down moves cs)
       \<and> currentTrimEnd (dragLive resize_right clip down moves cs) \<le> duration clip"
  using assms
  by (simp add: dragLive_cases startDrag_def handleMouseMove_def Let_def split: option.splits)

text \<open>
  The committed store of a gesture on a clip of a store with distinct ids: every clip
  is an untouched clip with another id, or the dragged clip with the commit applied.
\<close>

lemma dragGesture_member:
  assumes d: "distinct (map clip_id cs)" and m: "clip \<in> set cs"
      and c: "c \<in> set (dragGesture md clip down moves cs)"
  shows "(c \<in> set cs \<and> clip_id c \<noteq> clip_id clip) \<or>
         c = spread clip (commitUpdates (dragLive md clip down moves cs))"
proof -
  obtain x where x: "x \<in> set cs"
    and cx: "c = (if clip_id x = clip_id clip
                  then spread x (commitUpdates (dragLive md clip down moves cs)) else x)"
    using c by (auto simp: dragGesture_def handleMouseUp_eq dragLive_clipId)
  show ?thesis
  proof (cases "clip_id x = clip_id clip")
    case True
    then have "x = clip" using distinct_ids_same [OF d x m] by simp
    then show ?thesis using cx True by simp
  next
    case False
    then show ?thesis using cx x by simp
  qed
qed

text \<open>
  Claim C4, amended. For a clip of a store with distinct ids whose trim range satisfies
  0 \<le> trimStart, trimStart + 0.5 \<le> trimEnd \<le> duration, and for every sequence of
  pointer moves: resize-left keeps 0 \<le> live trimStart \<le> live trimEnd - 0.5,
  resize-right keeps live trimStart + 0.5 \<le> live trimEnd \<le> duration, and the
  committed clip satisfies the same bounds. The bounds are not strict: the minimum
  duration of 0.5 s is itself reached.
\<close>

theorem resize_respects_bounds:
  assumes v: "0 \<le> trimStart clip" "trimStart clip + 1 / 2 \<le> trimEnd clip"
             "trimEnd clip \<le> duration clip"
      and d: "distinct (map clip_id cs)" and m: "clip \<in> set cs"
  shows "0 \<le> currentTrimStart (dragLive resize_left clip down moves cs) \<and>
         currentTrimStart (dragLive resize_left clip down moves cs)
           \<le> currentTrimEnd (dragLive resize_left clip down moves cs) - 1 / 2 \<and>
         currentTrimEnd (dragLive resize_left clip down moves cs) \<le> duration clip \<and>
         0 \<le> currentTrimStart (dragLive resize_right clip down moves cs) \<and>
         currentTrimStart (dragLive resize_right clip down moves cs) + 1 / 2
           \<le> currentTrimEnd (dragLive resize_right clip down moves cs) \<and>
         currentTrimEnd (dragLive resize_right clip down moves cs) \<le> duration clip \<and>
         (\<forall>md \<in> {resize_left, resize_right}.
            \<forall>c \<in> set (dragGesture md clip down moves cs).
              clip_id c = clip_id clip \<longrightarrow>
                0 \<le> trimStart c \<and> trimStart c \<le> trimEnd c - 1 / 2 \<and>
                trimEnd c \<le> duration c)"
proof -
  have f: "find (\<lambda>c. clip_id c = clip_id clip) cs = Some clip" by (rule find_by_id [OF d m])
  note L = resize_left_live_bounds [OF v(1) v(2), of down moves cs]
  note R = resize_right_live_bounds [OF v(2) v(3) f, of down moves]
  have cl: "0 \<le> trimStart c \<and> trimStart c \<le> trimEnd c - 1 / 2 \<and> trimEnd c \<le> duration c"
    if "c \<in> set (dragGesture resize_left clip down moves cs)" "clip_id c = clip_id clip" for c
  proof -
    have "c = spread clip (commitUpdates (dragLive resize_left clip down moves cs))"
      using dragGesture_member [OF d m that(1)] that(2) by blast
    then show ?thesis using L v(3)
      by (simp add: spread_commitUpdates dragLive_mode)
  qed
  have cr: "0 \<le> trimStart c \<and> trimStart c \<le> trimEnd c - 1 / 2 \<and> trimEnd c \<le> duration c"
    if "c \<in> set (dragGesture resize_right clip down moves cs)" "clip_id c = clip_id clip" for c
  proof -
    have "c = spread clip (commitUpdates (dragLive resize_right clip down moves cs))"
      using dragGesture_member [OF d m that(1)] that(2) by blast
    then show ?thesis using R v(1)
      by (simp add: spread_commitUpdates dragLive_mode)
  qed
  show ?thesis using L R v cl cr by simp
qed

theorem resize_respects_bounds_witness:
  "0 \<le> trimStart clipA \<and> trimStart clipA + 1 / 2 \<le> trimEnd clipA \<and>
   trimEnd clipA \<le> duration clipA \<and>
   distinct (map clip_id [clipA, clipB]) \<and> clipA \<in> set [clipA, clipB] \<and>
   0 \<le> currentTrimStart (dragLive resize_left clipA evDown [evFar] [clipA, clipB]) \<and>
   currentTrimStart (dragLive resize_left clipA evDown [evFar] [clipA, clipB])
     \<le> currentTrimEnd (dragLive resize_left clipA evDown [evFar] [clipA, clipB]) - 1 / 2 \<and>
   currentTrimEnd (dragLive resize_right clipA evDown [evFar] [clipA, clipB]) \<le> duration clipA"
proof -
  have v: "0 \<le> trimStart clipA" "trimStart clipA + 1 / 2 \<le> trimEnd clipA"
          "trimEnd clipA \<le> duration clipA"
    by (simp_all add: ex_defs)
  have d: "distinct (map clip_id [clipA, clipB])" by (simp add: ex_defs)
  have m: "clipA \<in> set [clipA, clipB]" by simp
  show ?thesis
    using resize_respects_bounds [OF v d m, of evDown "[evFar]"] v d m by blast
qed

text \<open>
  Dragging the left handle of a clip trimmed to [0, 10] by 20 s to the right gives the
  live trim start 9.5, which is trimEnd - 0.5; dragging its right handle 20 s to the left
  gives the live trim end 0.5, which is trimStart + 0.5.
\<close>

theorem resize_reaches_minimum_duration:
  "0 \<le> trimStart clipA \<and> trimStart clipA + 1 / 2 \<le> trimEnd clipA \<and>
   trimEnd clipA \<le> duration clipA \<and>
   currentTrimStart (dragLive resize_left clipA evDown [evFar] [clipA, clipB])
     \<ge> currentTrimEnd (dragLive resize_left clipA evDown [evFar] [clipA, clipB]) - 1 / 2 \<and>
   currentTrimEnd (dragLive resize_right clipA evDown [evBack] [clipA, clipB])
     \<le> currentTrimStart (dragLive resize_right clipA evDown [evBack] [clipA, clipB]) + 1 / 2"
  by (simp add: dragLive_def handleMouseMove_def startDrag_def PIXELS_PER_SECOND_def
        TRACK_HEIGHT_def TRACK_GAP_def Let_def ex_defs)

section \<open>The click actions of the store\<close>


lemma find_map_same_key:
  assumes "\<And>c. P (f c) = P c"
  shows "find P (map f cs) = map_option f (find P cs)"
  using assms by (induction cs) auto

lemma find_snoc_fresh:
  assumes "\<forall>c \<in> set xs. \<not> P c" "P y"
  shows "find P (xs @ [y]) = Some y"
  using assms by (induction xs) auto

lemma split_selects_second:
  assumes s: "selectedClip st = Some sel"
      and y: "startOffset sel < currentTime st \<and>
              currentTime st < startOffset sel + (trimEnd sel - trimStart sel)"
      and f: "uuid \<notin> clip_id ` set (clips st)"
  shows "selectedClip (handleSplit uuid st)
           = Some (sel\<lparr> clip_id := uuid, startOffset := currentTime st,
                         trimStart := trimStart sel + (currentTime st - startOffset sel) \<rparr>)"
proof -
  let ?sp = "trimStart sel + (currentTime st - startOffset sel)"
  let ?f = "\<lambda>c. if clip_id c = clip_id sel then sel\<lparr> trimEnd := ?sp \<rparr> else c"
  let ?second = "sel\<lparr> clip_id := uuid, startOffset := currentTime st, trimStart := ?sp \<rparr>"
  have eq: "handleSplit uuid st
              = st\<lparr> clips := map ?f (clips st) @ [?second], selectedClipId := Some uuid \<rparr>"
    using s y by (simp add: handleSplit_def Let_def)
  have "\<forall>c \<in> set (map ?f (clips st)). \<not> Some (clip_id c) = Some uuid"
    using f by (auto simp: image_iff)
  then have "find (\<lambda>c. Some (clip_id c) = Some uuid) (map ?f (clips st) @ [?second]) = Some ?second"
    by (rule find_snoc_fresh) simp
  then show ?thesis by (simp add: eq selectedClip_def)
qed

text \<open>
  Claim C9. With a clip selected, the trim nudge computes the new trim start
  max(0, trimStart + startDelta) and the new trim end min(duration, trimEnd + endDelta).
  When the new start is not below the new end the state is returned as it is; otherwise
  the clips carrying the selected id get exactly these two values, every other clip and
  the rest of the state are unchanged. With nothing selected the state is unchanged.
\<close>

theorem adjustTrim_all_or_nothing:
  "(selectedClip st = None \<longrightarrow> adjustTrim sd ed st = st) \<and>
   (\<forall>sel. selectedClip st = Some sel \<longrightarrow>
      (\<not> max 0 (trimStart sel + sd) < min (duration sel) (trimEnd sel + ed)
         \<longrightarrow> adjustTrim sd ed st = st) \<and>
      (max 0 (trimStart sel + sd) < min (duration sel) (trimEnd sel + ed) \<longrightarrow>
         selectedClip (adjustTrim sd ed st)
           = Some (sel\<lparr> trimStart := max 0 (trimStart sel + sd),
                         trimEnd := min (duration sel) (trimEnd sel + ed) \<rparr>) \<and>
         length (clips (adjustTrim sd ed st)) = length (clips st) \<and>
         (\<forall>i < length (clips st).
            clips (adjustTrim sd ed st) ! i =
              (if clip_id (clips st ! i) = clip_id sel
               then (clips st ! i)\<lparr> trimStart := max 0 (trimStart sel + sd),
                                    trimEnd := min (duration sel) (trimEnd sel + ed) \<rparr>
               else clips st ! i)) \<and>
         currentTime (adjustTrim sd ed st) = currentTime st \<and>
         isPlaying (adjustTrim sd ed st) = isPlaying st \<and>
         selectedClipId (adjustTrim sd ed st) = selectedClipId st))"
proof (intro conjI allI impI)
  assume "selectedClip st = None"
  then show "adjustTrim sd ed st = st" by (simp add: adjustTrim_def)
next
  fix sel
  assume s: "selectedClip st = Some sel"
     and n: "\<not> max 0 (trimStart sel + sd) < min (duration sel) (trimEnd sel + ed)"
  then show "adjustTrim sd ed st = st" by (auto simp: adjustTrim_def Let_def)
next
  fix sel
  assume s: "selectedClip st = Some sel"
     and y: "max 0 (trimStart sel + sd) < min (duration sel) (trimEnd sel + ed)"
  let ?f = "\<lambda>c. if clip_id c = clip_id sel
                then c\<lparr> trimStart := max 0 (trimStart sel + sd),
                        trimEnd := min (duration sel) (trimEnd sel + ed) \<rparr>
                else c"
  have eq: "adjustTrim sd ed st = st\<lparr> clips := map ?f (clips st) \<rparr>"
    using s y by (auto simp: adjustTrim_def Let_def)
  have "find (\<lambda>c. Some (clip_id c) = selectedClipId st) (map ?f (clips st))
          = map_option ?f (find (\<lambda>c. Some (clip_id c) = selectedClipId st) (clips st))"
    by (rule find_map_same_key) simp
  then show "selectedClip (adjustTrim sd ed st)
           = Some (sel\<lparr> trimStart := max 0 (trimStart sel + sd),
                         trimEnd := min (duration sel) (trimEnd sel + ed) \<rparr>)"
    using s by (simp add: eq selectedClip_def)
  show "length (clips (adjustTrim sd ed st)) = length (clips st)" by (simp add: eq)
  show "clips (adjustTrim sd ed st) ! i =
              (if clip_id (clips st ! i) = clip_id sel
               then (clips st ! i)\<lparr> trimStart := max 0 (trimStart sel + sd),
                                    trimEnd := min (duration sel) (trimEnd sel + ed) \<rparr>
               else clips st ! i)" if "i < length (clips st)" for i
    using that by (simp add: eq)
  show "currentTime (adjustTrim sd ed st) = currentTime st" by (simp add: eq)
  show "isPlaying (adjustTrim sd ed st) = isPlaying st" by (simp add: eq)
  show "selectedClipId (adjustTrim sd ed st) = selectedClipId st" by (simp add: eq)
qed

theorem adjustTrim_all_or_nothing_witness:
  "selectedClip stSel = Some clipA \<and>
   max 0 (trimStart clipA + 1) < min (duration clipA) (trimEnd clipA + 0) \<and>
   selectedClip (adjustTrim 1 0 stSel) = Some (clipA\<lparr> trimStart := 1, trimEnd := 10 \<rparr>) \<and>
   clips (adjustTrim 1 0 stSel) ! 1 = clipB \<and>
   \<not> max 0 (trimStart clipA + 10) < min (duration clipA) (trimEnd clipA + 0) \<and>
   adjustTrim 10 0 stSel = stSel"
proof -
  have s: "selectedClip stSel = Some clipA" by (simp add: selectedClip_def ex_defs)
  have y: "max 0 (trimStart clipA + 1) < min (duration clipA) (trimEnd clipA + 0)"
    by (simp add: ex_defs)
  have n: "\<not> max 0 (trimStart clipA + 10) < min (duration clipA) (trimEnd clipA + 0)"
    by (simp add: ex_defs)
  note Y = adjustTrim_all_or_nothing [of stSel 1 0, THEN conjunct2, rule_format, OF s,
             THEN conjunct2, rule_format, OF y]
  note N = adjustTrim_all_or_nothing [of stSel 10 0, THEN conjunct2, rule_format, OF s,
             THEN conjunct1, rule_format, OF n]
  have l: "length (clips stSel) = 2" by (simp add: ex_defs)
  have a: "selectedClip (adjustTrim 1 0 stSel) = Some (clipA\<lparr> trimStart := 1, trimEnd := 10 \<rparr>)"
    using Y [THEN conjunct1] by (simp add: ex_defs)
  have b: "clips (adjustTrim 1 0 stSel) ! 1 = clipB"
    using Y [THEN conjunct2, THEN conjunct2, THEN conjunct1, rule_format, of 1] l
    by (simp add: ex_defs)
  show ?thesis using s y n a b N by blast
qed

text \<open>
  Claim C3. Split changes the state only when the cursor is strictly inside the active
  interval of the selected clip. Then the clip with the selected id becomes the first
  half (only its trim end changes, to the source split point), the second half is
  appended with the new id, the cursor as start offset, the split point as trim start and
  the old trim end and track, and the selection moves to the new id, which finds the
  second half when that id is not yet in the store.
\<close>

theorem handleSplit_spec:
  "(selectedClip st = None \<longrightarrow> handleSplit uuid st = st) \<and>
   (\<forall>sel. selectedClip st = Some sel \<longrightarrow>
      (\<not> (startOffset sel < currentTime st \<and>
           currentTime st < startOffset sel + (trimEnd sel - trimStart sel))
         \<longrightarrow> handleSplit uuid st = st) \<and>
      (startOffset sel < currentTime st \<and>
       currentTime st < startOffset sel + (trimEnd sel - trimStart sel) \<longrightarrow>
         length (clips (handleSplit uuid st)) = Suc (length (clips st)) \<and>
         (\<forall>i < length (clips st).
            clips (handleSplit uuid st) ! i =
              (if clip_id (clips st ! i) = clip_id sel
               then sel\<lparr> trimEnd := trimStart sel + (currentTime st - startOffset sel) \<rparr>
               else clips st ! i)) \<and>
         clips (handleSplit uuid st) ! length (clips st)
           = sel\<lparr> clip_id := uuid, startOffset := currentTime st,
                   trimStart := trimStart sel + (currentTime st - startOffset sel) \<rparr> \<and>
         selectedClipId (handleSplit uuid st) = Some uuid \<and>
         (uuid \<notin> clip_id ` set (clips st) \<longrightarrow>
            selectedClip (handleSplit uuid st)
              = Some (sel\<lparr> clip_id := uuid, startOffset := currentTime st,
                            trimStart := trimStart sel + (currentTime st - startOffset sel) \<rparr>)) \<and>
         currentTime (handleSplit uuid st) = currentTime st \<and>
         isPlaying (handleSplit uuid st) = isPlaying st))"
proof (intro conjI allI impI)
  assume "selectedClip st = None"
  then show "handleSplit uuid st = st" by (simp add: handleSplit_def)
next
  fix sel
  assume "selectedClip st = Some sel"
     and "\<not> (startOffset sel < currentTime st \<and>
           currentTime st < startOffset sel + (trimEnd sel - trimStart sel))"
  then show "handleSplit uuid st = st" by (auto simp: handleSplit_def Let_def)
next
  fix sel
  assume s: "selectedClip st = Some sel"
     and y: "startOffset sel < currentTime st \<and>
       currentTime st < startOffset sel + (trimEnd sel - trimStart sel)"
  let ?sp = "trimStart sel + (currentTime st - startOffset sel)"
  let ?f = "\<lambda>c. if clip_id c = clip_id sel then sel\<lparr> trimEnd := ?sp \<rparr> else c"
  let ?second = "sel\<lparr> clip_id := uuid, startOffset := currentTime st, trimStart := ?sp \<rparr>"
  have eq: "handleSplit uuid st
              = st\<lparr> clips := map ?f (clips st) @ [?second], selectedClipId := Some uuid \<rparr>"
    using s y by (simp add: handleSplit_def Let_def)
  show "length (clips (handleSplit uuid st)) = Suc (length (clips st))" by (simp add: eq)
  show "clips (handleSplit uuid st) ! i =
              (if clip_id (clips st ! i) = clip_id sel
               then sel\<lparr> trimEnd := trimStart sel + (currentTime st - startOffset sel) \<rparr>
               else clips st ! i)" if "i < length (clips st)" for i
    using that by (simp add: eq nth_append)
  show "clips (handleSplit uuid st) ! length (clips st) = ?second"
    by (simp add: eq nth_append)
  show "selectedClipId (handleSplit uuid st) = Some uuid" by (simp add: eq)
  show "selectedClip (handleSplit uuid st) = Some ?second"
    if "uuid \<notin> clip_id ` set (clips st)"
    using split_selects_second [OF s y that] .
  show "currentTime (handleSplit uuid st) = currentTime st" by (simp add: eq)
  show "isPlaying (handleSplit uuid st) = isPlaying st" by (simp add: eq)
qed

text \<open>
  The split scenario: a clip at 0 trimmed to [0, 10], cursor at 4.
\<close>

theorem handleSplit_spec_witness:
  "selectedClip stSel = Some clipA \<and>
   startOffset clipA < currentTime stSel \<and>
   currentTime stSel < startOffset clipA + (trimEnd clipA - trimStart clipA) \<and>
   clips (handleSplit ''n'' stSel) ! 0 = clipA\<lparr> trimEnd := 4 \<rparr> \<and>
   clips (handleSplit ''n'' stSel) ! 1 = clipB \<and>
   clips (handleSplit ''n'' stSel) ! 2
     = clipA\<lparr> clip_id := ''n'', startOffset := 4, trimStart := 4 \<rparr> \<and>
   selectedClipId (handleSplit ''n'' stSel) = Some ''n''"
proof -
  have s: "selectedClip stSel = Some clipA" by (simp add: selectedClip_def ex_defs)
  have i: "startOffset clipA < currentTime stSel \<and>
           currentTime stSel < startOffset clipA + (trimEnd clipA - trimStart clipA)"
    by (simp add: ex_defs)
  note T = handleSplit_spec [of stSel "''n''", THEN conjunct2, rule_format, OF s,
             THEN conjunct2, rule_format, OF i]
  have l: "length (clips stSel) = 2" by (simp add: ex_defs)
  have n0: "clips (handleSplit ''n'' stSel) ! 0 = clipA\<lparr> trimEnd := 4 \<rparr>"
    using T [THEN conjunct2, THEN conjunct1, rule_format, of 0] l by (simp add: ex_defs)
  have n1: "clips (handleSplit ''n'' stSel) ! 1 = clipB"
    using T [THEN conjunct2, THEN conjunct1, rule_format, of 1] l by (simp add: ex_defs)
  have n2: "clips (handleSplit ''n'' stSel) ! 2
     = clipA\<lparr> clip_id := ''n'', startOffset := 4, trimStart := 4 \<rparr>"
    using T [THEN conjunct2, THEN conjunct2, THEN conjunct1] unfolding l by (simp add: ex_defs)
  have sl: "selectedClipId (handleSplit ''n'' stSel) = Some ''n''"
    using T by blast
  show ?thesis using s i n0 n1 n2 sl by blast
qed

text \<open>
  Claim C6. Separate-audio on a selected video clip sets \<open>isMuted\<close> on it and changes no
  other field, and appends one clip with the new id, kind audio, track 0, not muted, the
  name prefixed with "Audio from ", and every other field copied from the selected clip
  as it was. With a selected clip of another kind, or nothing selected, the state is
  unchanged.
\<close>

theorem handleSeparateAudio_spec:
  "(selectedClip st = None \<longrightarrow> handleSeparateAudio uuid st = st) \<and>
   (\<forall>sel. selectedClip st = Some sel \<longrightarrow>
      (type_c sel \<noteq> video \<longrightarrow> handleSeparateAudio uuid st = st) \<and>
      (type_c sel = video \<longrightarrow>
         length (clips (handleSeparateAudio uuid st)) = Suc (length (clips st)) \<and>
         (\<forall>i < length (clips st).
            clips (handleSeparateAudio uuid st) ! i =
              (if clip_id (clips st ! i) = clip_id sel
               then sel\<lparr> isMuted := True \<rparr>
               else clips st ! i)) \<and>
         clips (handleSeparateAudio uuid st) ! length (clips st)
           = \<lparr> clip_id = uuid, fileUrl = fileUrl sel, type_c = audio,
               name = ''Audio from '' @ name sel, duration = duration sel,
               startOffset = startOffset sel, trackIndex = 0, trimStart = trimStart sel,
               trimEnd = trimEnd sel, volume = volume sel, isMuted = False,
               thumbnail = thumbnail sel \<rparr> \<and>
         selectedClipId (handleSeparateAudio uuid st) = selectedClipId st \<and>
         currentTime (handleSeparateAudio uuid st) = currentTime st \<and>
         isPlaying (handleSeparateAudio uuid st) = isPlaying st))"
proof (intro conjI allI impI)
  assume "selectedClip st = None"
  then show "handleSeparateAudio uuid st = st" by (simp add: handleSeparateAudio_def)
next
  fix sel
  assume "selectedClip st = Some sel" and "type_c sel \<noteq> video"
  then show "handleSeparateAudio uuid st = st" by (simp add: handleSeparateAudio_def)
next
  fix sel
  assume s: "selectedClip st = Some sel" and y: "type_c sel = video"
  let ?f = "\<lambda>c. if clip_id c = clip_id sel then sel\<lparr> isMuted := True \<rparr> else c"
  let ?a = "sel\<lparr> clip_id := uuid, type_c := audio, name := ''Audio from '' @ name sel,
                 trackIndex := 0, isMuted := False \<rparr>"
  have eq: "handleSeparateAudio uuid st = st\<lparr> clips := map ?f (clips st) @ [?a] \<rparr>"
    using s y by (simp add: handleSeparateAudio_def Let_def)
  show "length (clips (handleSeparateAudio uuid st)) = Suc (length (clips st))"
    by (simp add: eq)
  show "clips (handleSeparateAudio uuid st) ! i =
              (if clip_id (clips st ! i) = clip_id sel
               then sel\<lparr> isMuted := True \<rparr>
               else clips st ! i)" if "i < length (clips st)" for i
    using that by (simp add: eq nth_append)
  show "clips (handleSeparateAudio uuid st) ! length (clips st)
           = \<lparr> clip_id = uuid, fileUrl = fileUrl sel, type_c = audio,
               name = ''Audio from '' @ name sel, duration = duration sel,
               startOffset = startOffset sel, trackIndex = 0, trimStart = trimStart sel,
               trimEnd = trimEnd sel, volume = volume sel, isMuted = False,
               thumbnail = thumbnail sel \<rparr>"
    by (simp add: eq nth_append)
  show "selectedClipId (handleSeparateAudio uuid st) = selectedClipId st" by (simp add: eq)
  show "currentTime (handleSeparateAudio uuid st) = currentTime st" by (simp add: eq)
  show "isPlaying (handleSeparateAudio uuid st) = isPlaying st" by (simp add: eq)
qed

theorem handleSeparateAudio_spec_witness:
  "selectedClip stSel = Some clipA \<and> type_c clipA = video \<and>
   clips (handleSeparateAudio ''n'' stSel) ! 0 = clipA\<lparr> isMuted := True \<rparr> \<and>
   clips (handleSeparateAudio ''n'' stSel) ! 1 = clipB \<and>
   clips (handleSeparateAudio ''n'' stSel) ! 2
     = \<lparr> clip_id = ''n'', fileUrl = ''blob:a'', type_c = audio, name = ''Audio from A'',
         duration = 10, startOffset = 0, trackIndex = 0, trimStart = 0, trimEnd = 10,
         volume = 1, isMuted = False, thumbnail = None \<rparr>"
proof -
  have s: "selectedClip stSel = Some clipA" by (simp add: selectedClip_def ex_defs)
  have i: "type_c clipA = video" by (simp add: ex_defs)
  note T = handleSeparateAudio_spec [of stSel "''n''", THEN conjunct2, rule_format, OF s,
             THEN conjunct2, rule_format, OF i]
  have l: "length (clips stSel) = 2" by (simp add: ex_defs)
  have n0: "clips (handleSeparateAudio ''n'' stSel) ! 0 = clipA\<lparr> isMuted := True \<rparr>"
    using T [THEN conjunct2, THEN conjunct1, rule_format, of 0] l by (simp add: ex_defs)
  have n1: "clips (handleSeparateAudio ''n'' stSel) ! 1 = clipB"
    using T [THEN conjunct2, THEN conjunct1, rule_format, of 1] l by (simp add: ex_defs)
  have n2: "clips (handleSeparateAudio ''n'' stSel) ! 2
     = \<lparr> clip_id = ''n'', fileUrl = ''blob:a'', type_c = audio, name = ''Audio from A'',
         duration = 10, startOffset = 0, trackIndex = 0, trimStart = 0, trimEnd = 10,
         volume = 1, isMuted = False, thumbnail = None \<rparr>"
    using T [THEN conjunct2, THEN conjunct2, THEN conjunct1] unfolding l by (simp add: ex_defs)
  show ?thesis using s i n0 n1 n2 by blast
qed

section \<open>File import\<close>

text \<open>
  Claim C10, amended. When the metadata of a chosen file arrives with duration \<open>d\<close>,
  one clip is appended to the store as it is then: start offset \<open>c\<close>, track 0, trim
  [0, d], duration \<open>d\<close>, volume 1, not muted; the clips already there are unchanged and
  the cursor is set to \<open>c + d\<close>. Here \<open>c\<close> is the cursor time of the moment the file
  was chosen, which the callback captured, not the cursor time at completion.
\<close>

theorem file_import_appends_clip:
  assumes "handleFileUpload (Some file) url st0 = Some p"
  shows "clips (onloadedmetadata p uuid d st)
           = clips st @ [\<lparr> clip_id = uuid, fileUrl = url,
                            type_c = (if prefix ''audio'' (file_type file) then audio else video),
                            name = file_name file, duration = d,
                            startOffset = currentTime st0, trackIndex = 0, trimStart = 0,
                            trimEnd = d, volume = 1, isMuted = False, thumbnail = None \<rparr>] \<and>
         currentTime (onloadedmetadata p uuid d st) = currentTime st0 + d \<and>
         isPlaying (onloadedmetadata p uuid d st) = isPlaying st \<and>
         selectedClipId (onloadedmetadata p uuid d st) = selectedClipId st"
  using assms by (auto simp: handleFileUpload_def onloadedmetadata_def Let_def)

theorem file_import_appends_clip_witness:
  "handleFileUpload (Some fileV) ''blob:v'' stSel = Some pendingV \<and>
   clips (onloadedmetadata pendingV ''n'' 5 stSel)
     = clips stSel @ [\<lparr> clip_id = ''n'', fileUrl = ''blob:v'', type_c = video,
                         name = ''v.mp4'', duration = 5, startOffset = 4, trackIndex = 0,
                         trimStart = 0, trimEnd = 5, volume = 1, isMuted = False,
                         thumbnail = None \<rparr>] \<and>
   currentTime (onloadedmetadata pendingV ''n'' 5 stSel) = 9"
proof -
  have h: "handleFileUpload (Some fileV) ''blob:v'' stSel = Some pendingV"
    by (simp add: handleFileUpload_def ex_defs)
  have c: "currentTime stSel = 4" by (simp add: ex_defs)
  have f: "\<not> prefix ''audio'' (file_type fileV)" "file_name fileV = ''v.mp4''"
    by (simp_all add: ex_defs)
  show ?thesis
    using file_import_appends_clip [OF h, of "''n''" 5 stSel] h c f by simp
qed

text \<open>
  A file chosen with the cursor at 4 whose metadata arrives when playback has moved the
  cursor to 6: the clip starts at 4 and the cursor is set to 9, not to 6 and 11.
\<close>

theorem file_import_uses_captured_time:
  "handleFileUpload (Some fileV) ''blob:v'' stSel = Some pendingV \<and>
   currentTime stLater = 6 \<and>
   startOffset (last (clips (onloadedmetadata pendingV ''n'' 5 stLater))) = 4 \<and>
   currentTime (onloadedmetadata pendingV ''n'' 5 stLater) = 9"
  by (simp add: handleFileUpload_def onloadedmetadata_def Let_def ex_defs)

section \<open>The trim range stays valid\<close>





text \<open>
  The ids of the store: no action changes the id of a clip, split and separate-audio add
  the new id at the end. With a new id that is not yet in the store, distinct ids stay
  distinct, so the hypotheses of the next theorem hold again after every step.
\<close>

lemma spread_commit_id: "clip_id (spread c (commitUpdates ds)) = clip_id c"
  by (cases "mode ds") (simp_all add: spread_commitUpdates)

lemma ids_of_replace:
  assumes "\<And>c. clip_id c = i \<Longrightarrow> clip_id (g c) = i"
  shows "map clip_id (map (\<lambda>c. if clip_id c = i then g c else c) cs) = map clip_id cs"
  using assms by (induction cs) auto

lemma ids_after_split:
  "map clip_id (clips (handleSplit uuid st)) = map clip_id (clips st) \<or>
   map clip_id (clips (handleSplit uuid st)) = map clip_id (clips st) @ [uuid]"
proof (cases "selectedClip st")
  case None
  then show ?thesis by (simp add: handleSplit_def)
next
  case (Some sel)
  show ?thesis
  proof (cases "startOffset sel < currentTime st \<and>
                currentTime st < startOffset sel + (trimEnd sel - trimStart sel)")
    case True
    let ?first = "sel\<lparr> trimEnd := trimStart sel + (currentTime st - startOffset sel) \<rparr>"
    have "map clip_id (map (\<lambda>c. if clip_id c = clip_id sel then (\<lambda>_. ?first) c else c) (clips st))
            = map clip_id (clips st)"
      by (rule ids_of_replace) simp
    then show ?thesis using Some True by (simp add: handleSplit_def Let_def)
  next
    case False
    then show ?thesis using Some by (auto simp: handleSplit_def Let_def)
  qed
qed

lemma ids_after_separateAudio:
  "map clip_id (clips (handleSeparateAudio uuid st)) = map clip_id (clips st) \<or>
   map clip_id (clips (handleSeparateAudio uuid st)) = map clip_id (clips st) @ [uuid]"
proof (cases "selectedClip st")
  case None
  then show ?thesis by (simp add: handleSeparateAudio_def)
next
  case (Some sel)
  show ?thesis
  proof (cases "type_c sel = video")
    case True
    have "map clip_id (map (\<lambda>c. if clip_id c = clip_id sel then (\<lambda>_. sel\<lparr> isMuted := True \<rparr>) c else c)
                           (clips st))
            = map clip_id (clips st)"
      by (rule ids_of_replace) simp
    then show ?thesis using Some True by (simp add: handleSeparateAudio_def Let_def)
  next
    case False
    then show ?thesis using Some by (simp add: handleSeparateAudio_def)
  qed
qed

lemma ids_after_adjustTrim:
  "map clip_id (clips (adjustTrim sd ed st)) = map clip_id (clips st)"
proof (cases "selectedClip st")
  case None
  then show ?thesis by (simp add: adjustTrim_def)
next
  case (Some sel)
  have "map clip_id (map (\<lambda>c. if clip_id c = clip_id sel
                               then (\<lambda>c. c\<lparr> trimStart := a, trimEnd := b \<rparr>) c else c) (clips st))
          = map clip_id (clips st)" for a b
    by (rule ids_of_replace) simp
  then show ?thesis using Some by (simp add: adjustTrim_def Let_def)
qed

lemma ids_after_drag:
  "map clip_id (dragGesture md clip down moves cs) = map clip_id cs"
  unfolding dragGesture_def handleMouseUp_eq
  by (rule ids_of_replace) (simp add: spread_commit_id)

lemma ids_stay_distinct:
  assumes d: "distinct (map clip_id (clips st))" and f: "uuid \<notin> clip_id ` set (clips st)"
  shows "distinct (map clip_id (clips (handleSplit uuid st))) \<and>
         distinct (map clip_id (clips (handleSeparateAudio uuid st))) \<and>
         distinct (map clip_id (clips (adjustTrim sd ed st))) \<and>
         distinct (map clip_id (dragGesture md clip down moves (clips st)))"
proof -
  have u: "distinct (map clip_id (clips st) @ [uuid])" using d f by simp
  show ?thesis
    using ids_after_split [of uuid st] ids_after_separateAudio [of uuid st] d u
    by (auto simp: ids_after_adjustTrim ids_after_drag simp del: map_map)
qed




section \<open>The composition resolver\<close>





lemma topVideoClip_first_of_track:
  assumes "topVideoClip cs t = Some v"
  shows "find (\<lambda>c. trackIndex c = trackIndex v) (activeVideoClips cs t) = Some v"
proof -
  obtain rest where s: "sort_key (\<lambda>c. - trackIndex c) (activeVideoClips cs t) = v # rest"
    using assms by (auto simp: topVideoClip_def split: list.splits)
  have "filter (\<lambda>y. - trackIndex y = - trackIndex v) (v # rest)
          = filter (\<lambda>y. - trackIndex y = - trackIndex v) (activeVideoClips cs t)"
    using sort_key_stable [of "\<lambda>c. - trackIndex c" "- trackIndex v" "activeVideoClips cs t"] s
    by simp
  then have f: "filter (\<lambda>y. trackIndex y = trackIndex v) (activeVideoClips cs t)
             = v # filter (\<lambda>y. trackIndex y = trackIndex v) rest" by simp
  have g: "find (\<lambda>c. trackIndex c = trackIndex v) xs
             = (case filter (\<lambda>y. trackIndex y = trackIndex v) xs of
                  [] \<Rightarrow> None | x # _ \<Rightarrow> Some x)" for xs :: "Clip list"
    by (induction xs) auto
  show ?thesis using f g [of "activeVideoClips cs t"] by simp
qed













end
